theory Spec2Isabelle
  imports Main
begin

section \<open>Cursor codec\<close>

text \<open>
  \<^verbatim>\<open>app/main.py\<close> imports \<^verbatim>\<open>encode_token\<close> and \<^verbatim>\<open>decode_token\<close> from
  \<^verbatim>\<open>app/paging.py\<close>, which is not among the sources. The codec below follows section 4.3
  of the specification: a token is a string, \<^verbatim>\<open>encode\<close> is a reversible rendering of the
  offset, \<^verbatim>\<open>decode\<close> of an absent or empty token is 0, and a token that cannot be read
  is a cursor error that \<^verbatim>\<open>decode\<close> turns into 0.
\<close>

type_synonym token = string

datatype cursor_error = CursorError

definition digit_char :: "nat \<Rightarrow> char" where
  "digit_char d = char_of (48 + d)"

definition is_digit :: "char \<Rightarrow> bool" where
  "is_digit c = (48 \<le> (of_char c :: nat) \<and> (of_char c :: nat) \<le> 57)"

definition digit_val :: "char \<Rightarrow> nat" where
  "digit_val c = of_char c - 48"

function digits :: "nat \<Rightarrow> string" where
  "digits n = (if n < 10 then [digit_char n] else digits (n div 10) @ [digit_char (n mod 10)])"
  by pat_completeness auto
termination
  by (relation "measure id") auto

declare digits.simps [simp del]

text \<open>
  Modelled from the spec: \<^verbatim>\<open>encode_token\<close> of \<^verbatim>\<open>app/paging.py\<close>, which is missing.
  Section 4.3 leaves the representation open (``a reversible encoding of the integer'');
  the decimal numeral of the offset is taken, with a minus sign for an integer below zero,
  which the specification does not cover.
\<close>

definition encode_token :: "int \<Rightarrow> token" where
  "encode_token n = (if n < 0 then CHR ''-'' # digits (nat (- n)) else digits (nat n))"

text \<open>
  Modelled from the spec: the reading of a token inside \<^verbatim>\<open>decode_token\<close>. A token that
  is not a non-empty string of decimal digits is malformed.
\<close>

definition parse_offset :: "token \<Rightarrow> cursor_error + int" where
  "parse_offset s =
     (if s \<noteq> [] \<and> list_all is_digit s
      then Inr (int (foldl (\<lambda>acc c. 10 * acc + digit_val c) 0 s))
      else Inl CursorError)"

text \<open>
  Modelled from the spec: \<^verbatim>\<open>decode_token\<close> of \<^verbatim>\<open>app/paging.py\<close>, which is missing.
  An absent token and an empty token give 0; a cursor error is not passed on, it gives 0.
\<close>

definition decode_token :: "token option \<Rightarrow> int" where
  "decode_token tok =
     (case tok of
        None \<Rightarrow> 0
      | Some s \<Rightarrow>
          if s = [] then 0
          else (case parse_offset s of Inl CursorError \<Rightarrow> 0 | Inr n \<Rightarrow> n))"

section \<open>Paging helper\<close>

text \<open>
  Python's \<^verbatim>\<open>xs[start:stop]\<close> on a list: a bound below zero counts from the end and is
  cut at 0, a bound above the length is cut at the length, and the slice is empty when the
  adjusted stop is not above the adjusted start.
\<close>

definition adjust_index :: "int \<Rightarrow> nat \<Rightarrow> nat" where
  "adjust_index i n =
     (if i < 0 then (if i + int n < 0 then 0 else nat (i + int n))
      else if int n < i then n else nat i)"

definition py_slice :: "'a list \<Rightarrow> int \<Rightarrow> int \<Rightarrow> 'a list" where
  "py_slice xs start stop =
     (let lo = adjust_index start (length xs); hi = adjust_index stop (length xs)
      in take (hi - lo) (drop lo xs))"

text \<open>
  \<^verbatim>\<open>_page(items, offset, page_size)\<close> of \<^verbatim>\<open>app/main.py\<close> (an Isabelle name cannot
  start with an underscore). The result is the tuple
  \<^verbatim>\<open>(slice_, total, more, next_token)\<close>.
\<close>

definition page :: "'a list \<Rightarrow> int \<Rightarrow> int \<Rightarrow> 'a list \<times> int \<times> bool \<times> token option" where
  "page items offset page_size =
     (let total = int (length items);
          start = max offset 0;
          end' = min (start + page_size) total;
          slice' = py_slice items start end';
          more = (end' < total);
          next_token = (if more then Some (encode_token end') else None)
      in (slice', total, more, next_token))"

text \<open>
  A client that pages through a result: it starts at some offset, asks for a page of
  \<open>k\<close> objects, and while \<^verbatim>\<open>more\<close> is true asks again at the offset decoded from the
  token it was given. The pages are collected in order. The loop may not return (with
  \<open>k \<le> 0\<close> the offset need not advance), so it is a partial function: \<open>None\<close> is a
  run that never ends.
\<close>

partial_function (option) follow_pages ::
  "'a list \<Rightarrow> int \<Rightarrow> int \<Rightarrow> 'a list list \<Rightarrow> 'a list list option" where
  "follow_pages items k offset pages =
     (case page items offset k of
        (slice', n, more, next_token) \<Rightarrow>
          if more then follow_pages items k (decode_token next_token) (pages @ [slice'])
          else Some (pages @ [slice']))"

declare follow_pages.simps [code]

section \<open>Errors and configuration\<close>

datatype py_error = OverflowError | HTTPException nat string | Exception string

text \<open>
  The module-level settings of \<^verbatim>\<open>app/main.py\<close> that the modelled operations read,
  each taken from the environment when the module is loaded.
\<close>

record config =
  GENERATE_EVERY_SECONDS :: int
  GENERATE_ON_START :: bool
  COLLECTION_ID :: string
  TAXII_INDICATORS_ONLY :: bool
  SOURCE_SYSTEM :: string

section \<open>String helpers of Python\<close>

definition startswith :: "string \<Rightarrow> string \<Rightarrow> bool" where
  "startswith s p = (take (length p) s = p)"

definition endswith :: "string \<Rightarrow> string \<Rightarrow> bool" where
  "endswith s p = (length p \<le> length s \<and> drop (length s - length p) s = p)"

text \<open>\<^verbatim>\<open>str.lower\<close> on ASCII text: the letters A to Z move to a to z.\<close>

definition lower_char :: "char \<Rightarrow> char" where
  "lower_char c =
     (if 65 \<le> (of_char c :: nat) \<and> (of_char c :: nat) \<le> 90
      then char_of ((of_char c :: nat) + 32) else c)"

definition lower :: "string \<Rightarrow> string" where
  "lower s = map lower_char s"

text \<open>\<^verbatim>\<open>str.isspace\<close> on one ASCII character, and \<^verbatim>\<open>str.strip()\<close>.\<close>

definition is_space :: "char \<Rightarrow> bool" where
  "is_space c =
     ((9 \<le> (of_char c :: nat) \<and> (of_char c :: nat) \<le> 13)
      \<or> (28 \<le> (of_char c :: nat) \<and> (of_char c :: nat) \<le> 32))"

definition strip :: "string \<Rightarrow> string" where
  "strip s = rev (dropWhile is_space (rev (dropWhile is_space s)))"

text \<open>\<^verbatim>\<open>s.split(c)\<close> with a one-character separator: the empty string gives one empty part.\<close>

fun split_on :: "char \<Rightarrow> string \<Rightarrow> string list" where
  "split_on c [] = [[]]"
| "split_on c (x # xs) =
     (if x = c then [] # split_on c xs
      else (case split_on c xs of
              [] \<Rightarrow> [[x]]
            | w # ws \<Rightarrow> (x # w) # ws))"

text \<open>\<^verbatim>\<open>_parse_types_param\<close> of \<^verbatim>\<open>app/main.py\<close>.\<close>

definition parse_types_param :: "string option \<Rightarrow> string list option" where
  "parse_types_param types_param =
     (case types_param of
        None \<Rightarrow> None
      | Some s \<Rightarrow>
          if s = [] then None
          else (let parts = map strip (filter (\<lambda>t. strip t \<noteq> []) (split_on CHR '','' s))
                in if parts = [] then None else Some parts))"

section \<open>Snapshot store\<close>

text \<open>
  \<^verbatim>\<open>app/file_store.py\<close> is not among the sources; the store follows sections 3 and 4.2
  of the specification. Timestamps are integers. A snapshot is one file of the data
  directory: the time of its generation and its bundle, or no bundle when the file is
  malformed or unreadable.
\<close>

type_synonym timestamp = int

record intel_object =
  obj_id :: string
  obj_type :: string
  created :: timestamp
  modified :: timestamp

record snapshot =
  generated_at :: timestamp
  snap_bundle :: "intel_object list option"

record load_result =
  stixobjects :: "intel_object list"

text \<open>
  Modelled from the spec: the filter of the merged view (section 3), missing with
  \<^verbatim>\<open>app/file_store.py\<close>: an object is kept when its \<^verbatim>\<open>modified\<close> time is not before
  the threshold, or no threshold is given, and its type is in the allow-list, or no
  allow-list is given.
\<close>

definition keeps :: "timestamp option \<Rightarrow> string list option \<Rightarrow> intel_object \<Rightarrow> bool" where
  "keeps since types ob =
     ((case since of None \<Rightarrow> True | Some t \<Rightarrow> t \<le> modified ob)
      \<and> (case types of None \<Rightarrow> True | Some ts \<Rightarrow> obj_type ob \<in> set ts))"

text \<open>
  Modelled from the spec: \<^verbatim>\<open>load_objects\<close> of \<^verbatim>\<open>app/file_store.py\<close>, which is
  missing (section 4.2): the snapshots in the order of their generation, malformed ones
  dropped, their objects concatenated, filtered, and cut to at most \<^verbatim>\<open>limit\<close> objects in
  total.
\<close>

definition load_objects ::
  "snapshot list \<Rightarrow> timestamp option \<Rightarrow> nat \<Rightarrow> string list option \<Rightarrow> load_result" where
  "load_objects data_dir since limit types =
     \<lparr>stixobjects =
        take limit
          (filter (keeps since types)
             (concat (map (\<lambda>s. case snap_bundle s of None \<Rightarrow> [] | Some obs \<Rightarrow> obs)
                (sort_key generated_at data_dir))))\<rparr>"

text \<open>
  Modelled from the spec: \<^verbatim>\<open>load_indicators\<close> of \<^verbatim>\<open>app/file_store.py\<close>, which is
  missing (section 4.2): the same load, restricted to the type ``indicator''.
\<close>

definition load_indicators :: "snapshot list \<Rightarrow> timestamp option \<Rightarrow> nat \<Rightarrow> load_result" where
  "load_indicators data_dir since limit = load_objects data_dir since limit (Some [''indicator''])"

section \<open>List operations\<close>

text \<open>\<^verbatim>\<open>_collect_items\<close> of \<^verbatim>\<open>app/main.py\<close>; the data directory is passed explicitly.\<close>

definition collect_items ::
  "snapshot list \<Rightarrow> timestamp option \<Rightarrow> string list option \<Rightarrow> intel_object list" where
  "collect_items data_dir since types =
     (let merged = stixobjects (load_objects data_dir since 10000 types) in merged)"

record indicators_response =
  ind_count :: nat
  ind_total :: int
  ind_more :: bool
  ind_next :: "token option"
  ind_sourcesystem :: string
  ind_stixobjects :: "intel_object list"

text \<open>
  \<^verbatim>\<open>get_indicators\<close> of \<^verbatim>\<open>app/main.py\<close>. \<^verbatim>\<open>limit or len(items)\<close> is
  \<^verbatim>\<open>len(items)\<close> when \<^verbatim>\<open>limit\<close> is \<^verbatim>\<open>None\<close> and also when it is 0.
\<close>

definition get_indicators ::
  "config \<Rightarrow> snapshot list \<Rightarrow> timestamp option \<Rightarrow> int option \<Rightarrow> int option \<Rightarrow> token option
     \<Rightarrow> indicators_response" where
  "get_indicators cfg data_dir since limit page_size next' =
     (let items = stixobjects (load_indicators data_dir since 10000);
          page_size' =
            (case page_size of
               None \<Rightarrow>
                 (case limit of
                    None \<Rightarrow> int (length items)
                  | Some l \<Rightarrow> if l \<noteq> 0 then l else int (length items))
             | Some p \<Rightarrow> p);
          offset = decode_token next'
      in (case page items offset page_size' of
            (pg, n, more', next_token) \<Rightarrow>
              \<lparr>ind_count = length pg, ind_total = n, ind_more = more', ind_next = next_token,
               ind_sourcesystem = SOURCE_SYSTEM cfg, ind_stixobjects = pg\<rparr>))"

record collection_response =
  col_objects :: "intel_object list"
  col_sourcesystem :: string
  col_total :: int
  col_more :: bool
  col_next :: "token option"

text \<open>\<^verbatim>\<open>get_collection_objects\<close> of \<^verbatim>\<open>app/main.py\<close>.\<close>

definition get_collection_objects ::
  "config \<Rightarrow> snapshot list \<Rightarrow> string \<Rightarrow> timestamp option \<Rightarrow> string option \<Rightarrow> int \<Rightarrow> token option
     \<Rightarrow> py_error + collection_response" where
  "get_collection_objects cfg data_dir collection_id since types page_size next' =
     (if collection_id \<noteq> COLLECTION_ID cfg then Inl (HTTPException 404 ''Collection not found'')
      else
        (let type_list = parse_types_param types;
             items = collect_items data_dir since type_list;
             offset = decode_token next'
         in (case page items offset page_size of
               (pg, n, more', next_token) \<Rightarrow>
                 Inr \<lparr>col_objects = pg, col_sourcesystem = SOURCE_SYSTEM cfg, col_total = n,
                      col_more = more', col_next = next_token\<rparr>)))"

record taxii_response =
  txi_objects :: "intel_object list"
  txi_sourcesystem :: string
  txi_more :: bool
  txi_next :: "token option"

text \<open>
  \<^verbatim>\<open>taxii_objects\<close> of \<^verbatim>\<open>app/main.py\<close>: the body of the response. The \<^verbatim>\<open>ETag\<close> and
  \<^verbatim>\<open>Last-Modified\<close> headers, a hash and a rendering of the time of the request, are
  left out.
\<close>

definition taxii_objects ::
  "config \<Rightarrow> snapshot list \<Rightarrow> string \<Rightarrow> timestamp option \<Rightarrow> int \<Rightarrow> token option \<Rightarrow> string option
     \<Rightarrow> py_error + taxii_response" where
  "taxii_objects cfg data_dir collection_id added_after limit next' types =
     (if collection_id \<noteq> COLLECTION_ID cfg then Inl (HTTPException 404 ''Collection not found'')
      else
        (let type_list = (if TAXII_INDICATORS_ONLY cfg then Some [''indicator'']
                          else parse_types_param types);
             items = collect_items data_dir added_after type_list;
             offset = decode_token next'
         in (case page items offset limit of
               (pg, n, more', next_token) \<Rightarrow>
                 Inr \<lparr>txi_objects = pg, txi_sourcesystem = SOURCE_SYSTEM cfg,
                      txi_more = more', txi_next = next_token\<rparr>)))"


section \<open>Retention\<close>

text \<open>
  The data directory as \<^verbatim>\<open>os.walk(DATA_DIR)\<close> lists it: one entry for each directory,
  with its path and its files. Each file carries the time that
  \<^verbatim>\<open>datetime.fromtimestamp(os.path.getmtime(file_path), tz=timezone.utc)\<close> gives for it.
  Times are counted in microseconds since the epoch, the resolution of a
  \<^verbatim>\<open>datetime\<close>.
\<close>

record file_entry =
  fname :: string
  mtime :: int

type_synonym walk_entry = "string \<times> file_entry list"

record reaper_state =
  on_disk :: "walk_entry list"
  deleted_files :: "string list"

text \<open>\<^verbatim>\<open>os.remove(os.path.join(root, filename))\<close>: the file of that name leaves that directory.\<close>

definition os_remove :: "string \<Rightarrow> string \<Rightarrow> walk_entry list \<Rightarrow> walk_entry list" where
  "os_remove root filename disk =
     map (\<lambda>(r, files). if r = root then (r, filter (\<lambda>f. fname f \<noteq> filename) files) else (r, files))
       disk"

text \<open>The inner loop of \<^verbatim>\<open>delete_old_ti_files\<close>: \<^verbatim>\<open>for filename in files\<close>.\<close>

fun sweep_files :: "int \<Rightarrow> string \<Rightarrow> file_entry list \<Rightarrow> reaper_state \<Rightarrow> reaper_state" where
  "sweep_files threshold root [] st = st"
| "sweep_files threshold root (f # files) st =
     sweep_files threshold root files
       (if endswith (lower (fname f)) ''.json'' \<and> startswith (fname f) ''indicators_''
        then (if mtime f < threshold
              then st\<lparr>on_disk := os_remove root (fname f) (on_disk st),
                      deleted_files := deleted_files st @ [fname f]\<rparr>
              else st)
        else st)"

text \<open>The outer loop: \<^verbatim>\<open>for root, _, files in os.walk(DATA_DIR)\<close>.\<close>

fun sweep_walk :: "int \<Rightarrow> walk_entry list \<Rightarrow> reaper_state \<Rightarrow> reaper_state" where
  "sweep_walk threshold [] st = st"
| "sweep_walk threshold ((root, files) # rest) st =
     sweep_walk threshold rest (sweep_files threshold root files st)"

text \<open>
  The range of a \<^verbatim>\<open>datetime\<close>, from year 1 to the last microsecond of year 9999.
  \<^verbatim>\<open>current_time - timedelta(hours=h)\<close> raises \<^verbatim>\<open>OverflowError\<close> when the
  \<^verbatim>\<open>timedelta\<close> cannot be built or the result leaves this range; for a
  \<^verbatim>\<open>current_time\<close> inside the range the second condition covers the first.
\<close>

definition datetime_min :: int where
  "datetime_min = - 62135596800000000"

definition datetime_max :: int where
  "datetime_max = 253402300799999999"

record delete_response =
  del_status :: string
  del_deleted_files :: "string list"
  del_total_deleted :: nat
  del_threshold_hours :: int
  del_timestamp :: int

text \<open>
  \<^verbatim>\<open>delete_old_ti_files\<close> of \<^verbatim>\<open>app/main.py\<close>. The two readings of the clock are
  arguments; the result is the response together with the directory as it is left.
\<close>

definition delete_old_ti_files ::
  "walk_entry list \<Rightarrow> int \<Rightarrow> int \<Rightarrow> int \<Rightarrow> py_error + (delete_response \<times> walk_entry list)" where
  "delete_old_ti_files data_dir current_time response_time h =
     (let threshold = current_time - h * 3600000000
      in if threshold < datetime_min \<or> datetime_max < threshold then Inl OverflowError
         else
           (let st = sweep_walk threshold data_dir \<lparr>on_disk = data_dir, deleted_files = []\<rparr>
            in Inr (\<lparr>del_status = ''successful'',
                      del_deleted_files = deleted_files st,
                      del_total_deleted = length (deleted_files st),
                      del_threshold_hours = h,
                      del_timestamp = response_time\<rparr>,
                    on_disk st)))"

text \<open>
  The naming convention as the specification words it: a filename that starts with
  \<^verbatim>\<open>indicators_\<close> and ends in \<^verbatim>\<open>.json\<close>.
\<close>

definition spec_snapshot_name :: "string \<Rightarrow> bool" where
  "spec_snapshot_name filename = (startswith filename ''indicators_'' \<and> endswith filename ''.json'')"

text \<open>
  The test that the sweep applies to a filename: the suffix is compared after
  \<^verbatim>\<open>lower()\<close>, the prefix as it is.
\<close>

definition swept_name :: "string \<Rightarrow> bool" where
  "swept_name filename = (startswith filename ''indicators_'' \<and> endswith (lower filename) ''.json'')"

text \<open>
  A listing is that of a directory tree when no directory is listed twice and no directory
  has two files of one name.
\<close>

definition listing_ok :: "walk_entry list \<Rightarrow> bool" where
  "listing_ok disk =
     (distinct (map fst disk) \<and> list_all (\<lambda>(r, files). distinct (map fname files)) disk)"

text \<open>The listing without the files at a set of paths, a path being a directory and a name.\<close>

definition remove_paths :: "(string \<times> string) set \<Rightarrow> walk_entry list \<Rightarrow> walk_entry list" where
  "remove_paths D disk = map (\<lambda>(r, files). (r, filter (\<lambda>f. (r, fname f) \<notin> D) files)) disk"

text \<open>A data directory with two snapshots, written 10 hours and 2 hours before hour 100, and a file of another kind.\<close>

definition example_dir :: "walk_entry list" where
  "example_dir =
     [(''/app/data'',
       [\<lparr>fname = ''indicators_a.json'', mtime = 90 * 3600000000\<rparr>,
        \<lparr>fname = ''indicators_b.json'', mtime = 98 * 3600000000\<rparr>,
        \<lparr>fname = ''notes.txt'', mtime = 0\<rparr>])]"

section \<open>Regeneration scheduler\<close>









section \<open>A small configuration and store\<close>

text \<open>A configuration with the defaults of \<^verbatim>\<open>app/main.py\<close>, and a data directory with two snapshots.\<close>

definition example_config :: config where
  "example_config =
     \<lparr>GENERATE_EVERY_SECONDS = 7200, GENERATE_ON_START = True, COLLECTION_ID = ''indicators'',
      TAXII_INDICATORS_ONLY = False, SOURCE_SYSTEM = ''STEELCAGE.AI X-GEN TI PLATFORM''\<rparr>"

definition example_store :: "snapshot list" where
  "example_store =
     [\<lparr>generated_at = 20, snap_bundle = Some
         [\<lparr>obj_id = ''indicator--3'', obj_type = ''indicator'', created = 20, modified = 20\<rparr>]\<rparr>,
      \<lparr>generated_at = 10, snap_bundle = Some
         [\<lparr>obj_id = ''indicator--1'', obj_type = ''indicator'', created = 10, modified = 10\<rparr>,
          \<lparr>obj_id = ''malware--2'', obj_type = ''malware'', created = 10, modified = 10\<rparr>]\<rparr>]"

section \<open>Properties of the codec\<close>

lemma of_char_digit_char: "d < 10 \<Longrightarrow> (of_char (digit_char d) :: nat) = 48 + d"
  by (simp add: digit_char_def)

lemma is_digit_digit_char: "d < 10 \<Longrightarrow> is_digit (digit_char d)"
  by (simp add: is_digit_def of_char_digit_char)

lemma digit_val_digit_char: "d < 10 \<Longrightarrow> digit_val (digit_char d) = d"
  by (simp add: digit_val_def of_char_digit_char)

lemma digits_nonempty: "digits n \<noteq> []"
  by (subst digits.simps) simp

lemma digits_all_digit: "list_all is_digit (digits n)"
proof (induction n rule: digits.induct)
  case (1 n)
  show ?case
  proof (cases "n < 10")
    case True
    then show ?thesis by (subst digits.simps) (simp add: is_digit_digit_char)
  next
    case False
    with "1" show ?thesis by (subst digits.simps) (simp add: is_digit_digit_char)
  qed
qed

lemma digits_value: "foldl (\<lambda>acc c. 10 * acc + digit_val c) 0 (digits n) = n"
proof (induction n rule: digits.induct)
  case (1 n)
  show ?case
  proof (cases "n < 10")
    case True
    then show ?thesis by (subst digits.simps) (simp add: digit_val_digit_char)
  next
    case False
    with "1" show ?thesis by (subst digits.simps) (simp add: digit_val_digit_char)
  qed
qed

lemma decode_encode_nat: "0 \<le> n \<Longrightarrow> decode_token (Some (encode_token n)) = n"
  by (simp add: decode_token_def encode_token_def parse_offset_def digits_nonempty
      digits_all_digit digits_value)

section \<open>Properties of the paging helper\<close>

lemma slice_nth: "e \<le> length xs \<Longrightarrow> take (e - s) (drop s xs) = map ((!) xs) [s..<e]"
  by (rule nth_equalityI) auto

lemma py_slice_nonneg:
  assumes "0 \<le> s" "0 \<le> e" "e \<le> int (length xs)"
  shows "py_slice xs s e = map ((!) xs) [nat s ..< nat e]"
proof (cases "int (length xs) < s")
  case True
  with assms show ?thesis by (simp add: py_slice_def adjust_index_def)
next
  case False
  with assms show ?thesis by (simp add: py_slice_def adjust_index_def slice_nth)
qed

lemma py_slice_subset: "set (py_slice xs s e) \<subseteq> set xs"
  unfolding py_slice_def Let_def
  by (meson set_take_subset set_drop_subset subset_trans)

lemma py_slice_length: "length (py_slice xs s e) \<le> length xs"
  by (simp add: py_slice_def Let_def)

lemma page_positive_aux:
  assumes "0 < page_size"
  shows "page items offset page_size =
     (let start = max offset 0; end' = min (start + page_size) (int (length items))
      in (map ((!) items) [nat start ..< nat end'], int (length items), end' < int (length items),
          if end' < int (length items) then Some (encode_token end') else None))"
proof -
  have "py_slice items (max offset 0) (min (max offset 0 + page_size) (int (length items)))
        = map ((!) items) [nat (max offset 0) ..< nat (min (max offset 0 + page_size) (int (length items)))]"
    using assms by (intro py_slice_nonneg) auto
  then show ?thesis by (simp add: page_def Let_def)
qed

text \<open>
  Claim C1. For every list of items, every offset and every positive page size, the
  paging helper returns the objects at the positions \<open>start, \<dots>, end - 1\<close> of the
  list, that is \<^verbatim>\<open>items[start:end]\<close>, where \<open>start = max(offset, 0)\<close> and
  \<open>end = min(start + page_size, len(items))\<close>; it reports \<open>total = len(items)\<close> and
  \<open>more = (end < total)\<close>, and the next token is \<open>encode(end)\<close> when \<open>more\<close> holds
  and absent otherwise.
\<close>

theorem page_returns_slice:
  assumes "0 < page_size"
  shows "page items offset page_size =
     (let total = int (length items); start = max offset 0; end' = min (start + page_size) total
      in (map ((!) items) [nat start ..< nat end'], total, end' < total,
          if end' < total then Some (encode_token end') else None))"
  using page_positive_aux[OF assms, of items offset] unfolding Let_def .

theorem page_returns_slice_witness:
  "(0::int) < 3 \<and> page ''abcdefg'' 2 3 = (''cde'', 7, True, Some (encode_token 5))"
  using page_returns_slice[of 3 "''abcdefg''" 2] by (simp add: Let_def upt_rec)

lemma page_wrapped_end:
  assumes "s + page_size < 0" "0 \<le> s"
  shows "py_slice items s (s + page_size) =
     (if 0 < int (length items) + page_size
      then map ((!) items) [nat s ..< nat (int (length items) + s + page_size)] else [])"
proof (cases "0 < int (length items) + page_size")
  case True
  with assms have lt: "s < int (length items)" by linarith
  have hi: "adjust_index (s + page_size) (length items) = nat (int (length items) + s + page_size)"
    using assms True by (simp add: adjust_index_def add.commute add.left_commute)
  have lo: "adjust_index s (length items) = nat s"
    using assms lt by (simp add: adjust_index_def)
  have "nat (int (length items) + s + page_size) \<le> length items"
    using assms by linarith
  then show ?thesis using True by (simp add: py_slice_def hi lo slice_nth)
next
  case False
  have "adjust_index (s + page_size) (length items) \<le> adjust_index s (length items)"
    using assms False by (auto simp add: adjust_index_def)
  then show ?thesis using False by (simp add: py_slice_def)
qed

lemma page_nonpositive_slice:
  assumes "page_size \<le> 0"
  shows "fst (page items offset page_size) =
     (if max offset 0 + page_size < 0 \<and> 0 < int (length items) + page_size
      then map ((!) items) [nat (max offset 0) ..< nat (int (length items) + max offset 0 + page_size)]
      else [])"
proof (cases "max offset 0 + page_size < 0")
  case True
  then have "min (max offset 0 + page_size) (int (length items)) = max offset 0 + page_size"
    by linarith
  then show ?thesis using True page_wrapped_end[OF True, of items]
    by (simp add: page_def Let_def)
next
  case False
  define e where "e = min (max offset 0 + page_size) (int (length items))"
  have e: "0 \<le> e" "e \<le> max offset 0" "e \<le> int (length items)"
    using False assms by (auto simp: e_def)
  have "py_slice items (max offset 0) e = map ((!) items) [nat (max offset 0) ..< nat e]"
    using e by (intro py_slice_nonneg) auto
  also have "\<dots> = []" using e by simp
  finally show ?thesis using False by (simp add: page_def Let_def e_def)
qed

text \<open>
  Claim C8 says that a page request with \<open>page_size \<le> 0\<close> returns an empty page, for
  every list and every offset. The helper has no check of the page size, and a negative
  \<open>end\<close> is a bound that Python's slice counts from the end of the list: on the three
  items \<open>a, b, c\<close>, offset 0 and page size \<open>-1\<close> give the page \<open>a, b\<close>.
\<close>

theorem page_nonpositive_size_counterexample:
  "(- 1 :: int) \<le> 0 \<and> fst (page ''abc'' 0 (- 1)) = ''ab''"
  by (simp add: page_def py_slice_def adjust_index_def)

text \<open>
  Claim C8, amended. With \<open>start = max(offset, 0)\<close> and \<open>page_size \<le> 0\<close>, the page is
  empty exactly when \<open>start + page_size \<ge> 0\<close> (so always for \<open>page_size = 0\<close>) or
  \<open>len(items) + page_size \<le> 0\<close>; otherwise the page holds the objects at the positions
  from \<open>start\<close> up to, not including, \<open>len(items) + start + page_size\<close>.
\<close>

theorem page_nonpositive_size:
  assumes "page_size \<le> 0"
  shows "fst (page items offset page_size) =
           (if max offset 0 + page_size < 0 \<and> 0 < int (length items) + page_size
            then map ((!) items)
                   [nat (max offset 0) ..< nat (int (length items) + max offset 0 + page_size)]
            else [])
         \<and> ((fst (page items offset page_size) = []) =
              (0 \<le> max offset 0 + page_size \<or> int (length items) + page_size \<le> 0))"
proof -
  have 1: "fst (page items offset page_size) =
     (if max offset 0 + page_size < 0 \<and> 0 < int (length items) + page_size
      then map ((!) items) [nat (max offset 0) ..< nat (int (length items) + max offset 0 + page_size)]
      else [])"
    by (rule page_nonpositive_slice[OF assms])
  have "(fst (page items offset page_size) = []) =
           (0 \<le> max offset 0 + page_size \<or> int (length items) + page_size \<le> 0)"
    unfolding 1 using assms by auto
  with 1 show ?thesis by blast
qed

theorem page_nonpositive_size_witness:
  "(- 1 :: int) \<le> 0 \<and> fst (page ''abc'' 0 (- 1)) = ''ab'' \<and> fst (page ''abc'' 2 0) = []"
  using page_nonpositive_size[of "- 1" "''abc''" 0] page_nonpositive_size[of 0 "''abc''" 2]
  by (simp add: upt_rec)

text \<open>
  Claim C9 says that for a non-empty list, an offset with \<open>0 \<le> offset\<close> and
  \<open>offset + page_size < len(items)\<close>, and \<open>page_size \<le> 0\<close>, the helper returns an
  empty page, \<open>more = true\<close> and a token for \<open>offset + page_size\<close>. The page is not
  always empty: on \<open>a, b, c, d\<close>, offset 1 and page size \<open>-2\<close> give \<open>end = -1\<close> and
  the page \<open>b, c\<close>.
\<close>

theorem nonpositive_size_token_counterexample:
  "''abcd'' \<noteq> [] \<and> (0::int) \<le> 1 \<and> (1::int) + (- 2) < int (length ''abcd'') \<and> (- 2 :: int) \<le> 0
   \<and> fst (page ''abcd'' 1 (- 2)) = ''bc''"
  by (simp add: page_def py_slice_def adjust_index_def)

text \<open>
  Claim C9, amended. Under the same conditions the helper reports \<open>total = len(items)\<close>,
  \<open>more = true\<close> and the token \<open>encode(offset + page_size)\<close>, a position that is not
  above the current offset. When \<open>offset + page_size \<ge> 0\<close> the page is empty and the token
  decodes to \<open>offset + page_size\<close>, so a client that follows it does not advance. When
  \<open>offset + page_size < 0\<close> the page is \<^verbatim>\<open>items[offset : len(items) + offset + page_size]\<close>,
  empty only if \<open>len(items) + page_size \<le> 0\<close>.
\<close>

theorem nonpositive_size_token:
  assumes "items \<noteq> []" "0 \<le> offset" "offset + page_size < int (length items)" "page_size \<le> 0"
  shows "snd (page items offset page_size) =
           (int (length items), True, Some (encode_token (offset + page_size)))
         \<and> offset + page_size \<le> offset
         \<and> (0 \<le> offset + page_size \<longrightarrow>
              fst (page items offset page_size) = []
              \<and> decode_token (Some (encode_token (offset + page_size))) = offset + page_size)
         \<and> (offset + page_size < 0 \<longrightarrow>
              fst (page items offset page_size) =
                (if 0 < int (length items) + page_size
                 then map ((!) items) [nat offset ..< nat (int (length items) + offset + page_size)]
                 else []))"
proof -
  have s: "max offset 0 = offset" using assms by simp
  have "snd (page items offset page_size) =
           (int (length items), True, Some (encode_token (offset + page_size)))"
    using assms by (simp add: page_def Let_def s)
  moreover have "offset + page_size \<le> offset" using assms by simp
  moreover have "fst (page items offset page_size) = []" if "0 \<le> offset + page_size"
    using page_nonpositive_slice[OF assms(4), of items offset] that by (simp add: s)
  moreover have "decode_token (Some (encode_token (offset + page_size))) = offset + page_size"
    if "0 \<le> offset + page_size"
    using that by (rule decode_encode_nat)
  moreover have "fst (page items offset page_size) =
                (if 0 < int (length items) + page_size
                 then map ((!) items) [nat offset ..< nat (int (length items) + offset + page_size)]
                 else [])" if "offset + page_size < 0"
    using page_nonpositive_slice[OF assms(4), of items offset] that by (simp add: s)
  ultimately show ?thesis by blast
qed

theorem nonpositive_size_token_witness:
  "''abcd'' \<noteq> [] \<and> (0::int) \<le> 2 \<and> (2::int) + (- 1) < int (length ''abcd'') \<and> (- 1 :: int) \<le> 0
   \<and> page ''abcd'' 2 (- 1) = ([], 4, True, Some (encode_token 1))
   \<and> decode_token (Some (encode_token 1)) = 1"
  using nonpositive_size_token[of "''abcd''" 2 "- 1"] by (simp add: prod_eq_iff)

section \<open>Following the tokens\<close>

lemma page_at_nat:
  assumes "1 \<le> k" "n \<le> length items"
  shows "page items (int n) k =
     (take (nat k) (drop n items), int (length items), int n + k < int (length items),
      if int n + k < int (length items) then Some (encode_token (int n + k)) else None)"
proof -
  have "map ((!) items) [n ..< nat (min (int n + k) (int (length items)))] = take (nat k) (drop n items)"
  proof (cases "int n + k \<le> int (length items)")
    case True
    then have "nat (min (int n + k) (int (length items))) = n + nat k"
      using assms by simp
    with True assms show ?thesis by (intro nth_equalityI) auto
  next
    case False
    then have "nat (min (int n + k) (int (length items))) = length items"
      by simp
    with False assms show ?thesis by (intro nth_equalityI) auto
  qed
  moreover have "(min (int n + k) (int (length items)) < int (length items)) = (int n + k < int (length items))"
    by auto
  ultimately show ?thesis using assms
    by (simp add: page_positive_aux Let_def min_def)
qed

lemma follow_pages_from:
  assumes "1 \<le> k"
  shows "n \<le> length items \<Longrightarrow>
     \<exists>ps. follow_pages items k (int n) pages = Some (pages @ ps) \<and> concat ps = drop n items"
proof (induction "length items - n" arbitrary: n pages rule: less_induct)
  case less
  show ?case
  proof (cases "int n + k < int (length items)")
    case True
    let ?m = "n + nat k"
    have m: "?m \<le> length items" "length items - ?m < length items - n" "int ?m = int n + k"
      using True assms by auto
    have dec: "decode_token (Some (encode_token (int n + k))) = int ?m"
      using assms by (simp add: decode_encode_nat)
    obtain ps where ps: "follow_pages items k (int ?m) (pages @ [take (nat k) (drop n items)])
         = Some ((pages @ [take (nat k) (drop n items)]) @ ps)" "concat ps = drop ?m items"
      using less.hyps[OF m(2) m(1)] by blast
    have "follow_pages items k (int n) pages = Some (pages @ (take (nat k) (drop n items) # ps))"
      using True ps(1) dec by (subst follow_pages.simps) (simp add: page_at_nat[OF assms less.prems])
    moreover have "concat (take (nat k) (drop n items) # ps) = drop n items"
      using ps(2) by (simp add: add.commute[of n] flip: drop_drop)
    ultimately show ?thesis by blast
  next
    case False
    then have "take (nat k) (drop n items) = drop n items" by simp
    with False have "follow_pages items k (int n) pages = Some (pages @ [drop n items])"
      by (subst follow_pages.simps) (simp add: page_at_nat[OF assms less.prems])
    then show ?thesis by simp
  qed
qed

text \<open>
  Claim C2. For every list of items and every page size \<open>k \<ge> 1\<close>, the client that
  starts at offset 0 and asks for the next page at the offset decoded from the token it
  was given, until \<open>more\<close> is false, comes to an end, and the pages it has received,
  put one after the other, are the whole list: nothing twice, nothing left out.
\<close>

theorem paging_exhaustive:
  assumes "1 \<le> k"
  shows "\<exists>ps. follow_pages items k 0 [] = Some ps \<and> concat ps = items"
  using follow_pages_from[OF assms, of 0 items "[]"] by simp

theorem paging_exhaustive_witness:
  "(1::int) \<le> 3 \<and> (\<exists>ps. follow_pages ''abcdefg'' 3 0 [] = Some ps \<and> concat ps = ''abcdefg'')"
  using paging_exhaustive[of 3 "''abcdefg''"] by simp

section \<open>The codec and the requests that carry a cursor\<close>

text \<open>
  Claim C3. For every integer \<open>n \<ge> 0\<close>, decoding the token that encodes \<open>n\<close> gives
  \<open>n\<close>. Encoding is stable: the token is a function of the offset alone, so equal
  offsets have equal tokens, and by the round trip different offsets have different
  tokens.
\<close>

theorem token_round_trip:
  assumes "0 \<le> n" "0 \<le> m"
  shows "decode_token (Some (encode_token n)) = n
         \<and> ((encode_token n = encode_token m) = (n = m))"
proof -
  have n: "decode_token (Some (encode_token n)) = n" using assms(1) by (rule decode_encode_nat)
  have m: "decode_token (Some (encode_token m)) = m" using assms(2) by (rule decode_encode_nat)
  have "n = m" if "encode_token n = encode_token m"
  proof -
    have "decode_token (Some (encode_token n)) = decode_token (Some (encode_token m))"
      by (simp only: that)
    then show ?thesis by (simp only: n m)
  qed
  with n show ?thesis by blast
qed

theorem token_round_trip_witness:
  "(0::int) \<le> 42 \<and> (0::int) \<le> 7 \<and> decode_token (Some (encode_token 42)) = 42
   \<and> encode_token 42 \<noteq> encode_token 7"
  using token_round_trip[of 42 7] by simp




section \<open>The list of indicators\<close>

lemma example_indicators:
  "stixobjects (load_indicators example_store None 10000) =
     [\<lparr>obj_id = ''indicator--1'', obj_type = ''indicator'', created = 10, modified = 10\<rparr>,
      \<lparr>obj_id = ''indicator--3'', obj_type = ''indicator'', created = 20, modified = 20\<rparr>]"
  by (simp add: load_indicators_def load_objects_def example_store_def keeps_def)

lemma page_all:
  "page items offset (int (length items)) =
     (drop (nat (max offset 0)) items, int (length items), False, None)"
proof (cases "items = []")
  case True
  then show ?thesis by (simp add: page_def py_slice_def adjust_index_def)
next
  case False
  then have pos: "0 < int (length items)" by simp
  have e: "min (max offset 0 + int (length items)) (int (length items)) = int (length items)"
    by simp
  have "map ((!) items) [nat (max offset 0) ..< length items] = drop (nat (max offset 0)) items"
    by (rule nth_equalityI) auto
  then show ?thesis
    using page_positive_aux[OF pos, of items offset] unfolding Let_def e by simp
qed

lemma get_indicators_limit:
  "l \<noteq> 0 \<Longrightarrow> get_indicators cfg data_dir since (Some l) None tok
     = get_indicators cfg data_dir since (Some l) (Some l) tok"
  by (simp add: get_indicators_def)

lemma get_indicators_no_limit:
  assumes "limit = None \<or> limit = Some 0"
  shows "get_indicators cfg data_dir since limit None tok
     = get_indicators cfg data_dir since limit
         (Some (int (length (stixobjects (load_indicators data_dir since 10000))))) tok"
  using assms unfolding get_indicators_def Let_def by auto

lemma get_indicators_whole:
  "get_indicators cfg data_dir since limit
     (Some (int (length (stixobjects (load_indicators data_dir since 10000))))) tok
   = \<lparr>ind_count = length (drop (nat (max (decode_token tok) 0))
                       (stixobjects (load_indicators data_dir since 10000))),
      ind_total = int (length (stixobjects (load_indicators data_dir since 10000))),
      ind_more = False, ind_next = None, ind_sourcesystem = SOURCE_SYSTEM cfg,
      ind_stixobjects = drop (nat (max (decode_token tok) 0))
                       (stixobjects (load_indicators data_dir since 10000))\<rparr>"
  unfolding get_indicators_def Let_def option.case page_all prod.case ..

text \<open>
  Claim C5 says that without a \<open>page_size\<close> the effective page size is the limit of the
  caller if one was given. \<^verbatim>\<open>limit or len(items)\<close> takes a limit of 0 as no limit: on
  a store with two indicators the request with \<open>limit = 0\<close> returns both, where a page
  size of 0 returns none.
\<close>

lemma example_page_zero:
  "fst (page (stixobjects (load_indicators example_store None 10000)) 0 0) = []"
  using page_nonpositive_slice[of 0 "stixobjects (load_indicators example_store None 10000)" 0]
  by simp

theorem default_page_size_counterexample:
  "ind_count (get_indicators example_config example_store None (Some 0) None None) = 2
   \<and> ind_count (get_indicators example_config example_store None (Some 0) (Some 0) None) = 0"
proof -
  have b: "Some (0::int) = None \<or> Some (0::int) = Some 0" by simp
  have d: "decode_token None = 0" by (simp add: decode_token_def)
  have "ind_count (get_indicators example_config example_store None (Some 0) None None) = 2"
    unfolding get_indicators_no_limit[OF b] get_indicators_whole d
    by (simp add: example_indicators)
  moreover have "ind_count (get_indicators example_config example_store None (Some 0) (Some 0) None) = 0"
    using example_page_zero
    by (auto simp add: get_indicators_def d split: prod.splits)
  ultimately show ?thesis by blast
qed

text \<open>
  Claim C5, amended. For the list of indicators without a \<open>page_size\<close>: with a limit
  other than 0 the request is answered as the request whose page size is that limit; with
  no limit, or the limit 0, it is answered as the request whose page size is the length of
  the filtered result, so it returns everything from the starting offset in one page, with
  \<open>more = false\<close> and no next token; and the request with neither page size, limit nor
  cursor returns the entire result.
\<close>

theorem default_page_size:
  "(\<forall>l. limit = Some l \<and> l \<noteq> 0 \<longrightarrow>
       get_indicators cfg data_dir since limit None tok
         = get_indicators cfg data_dir since limit (Some l) tok)
   \<and> (limit = None \<or> limit = Some 0 \<longrightarrow>
         get_indicators cfg data_dir since limit None tok
           = get_indicators cfg data_dir since limit
               (Some (int (length (stixobjects (load_indicators data_dir since 10000))))) tok
         \<and> ind_more (get_indicators cfg data_dir since limit None tok) = False
         \<and> ind_next (get_indicators cfg data_dir since limit None tok) = None
         \<and> ind_stixobjects (get_indicators cfg data_dir since limit None tok)
           = drop (nat (max (decode_token tok) 0)) (stixobjects (load_indicators data_dir since 10000)))
   \<and> (limit = None \<longrightarrow>
         ind_stixobjects (get_indicators cfg data_dir since limit None None)
           = stixobjects (load_indicators data_dir since 10000))"
proof (intro conjI allI impI)
  fix l assume "limit = Some l \<and> l \<noteq> 0"
  then show "get_indicators cfg data_dir since limit None tok
         = get_indicators cfg data_dir since limit (Some l) tok"
    using get_indicators_limit[of l cfg data_dir since tok] by blast
next
  assume a: "limit = None \<or> limit = Some 0"
  note eq = get_indicators_no_limit[OF a, of cfg data_dir since tok]
  show "get_indicators cfg data_dir since limit None tok
           = get_indicators cfg data_dir since limit
               (Some (int (length (stixobjects (load_indicators data_dir since 10000))))) tok"
    by (rule eq)
  show "ind_more (get_indicators cfg data_dir since limit None tok) = False"
    unfolding eq get_indicators_whole by simp
  show "ind_next (get_indicators cfg data_dir since limit None tok) = None"
    unfolding eq get_indicators_whole by simp
  show "ind_stixobjects (get_indicators cfg data_dir since limit None tok)
           = drop (nat (max (decode_token tok) 0)) (stixobjects (load_indicators data_dir since 10000))"
    unfolding eq get_indicators_whole by simp
next
  assume a: "limit = None"
  then have b: "limit = None \<or> limit = Some 0" by blast
  have d: "decode_token None = 0" by (simp add: decode_token_def)
  show "ind_stixobjects (get_indicators cfg data_dir since limit None None)
           = stixobjects (load_indicators data_dir since 10000)"
    unfolding get_indicators_no_limit[OF b] get_indicators_whole d by simp
qed

theorem default_page_size_witness:
  "ind_stixobjects (get_indicators example_config example_store None None None None)
     = stixobjects (load_indicators example_store None 10000)
   \<and> get_indicators example_config example_store None (Some 1) None None
     = get_indicators example_config example_store None (Some 1) (Some 1) None"
proof -
  have "ind_stixobjects (get_indicators example_config example_store None None None None)
     = stixobjects (load_indicators example_store None 10000)"
    using default_page_size[of None example_config example_store None None] by blast
  moreover have "get_indicators example_config example_store None (Some 1) None None
     = get_indicators example_config example_store None (Some 1) (Some 1) None"
    using default_page_size[of "Some 1" example_config example_store None None] by simp
  ultimately show ?thesis by blast
qed

section \<open>The cap of the merged view\<close>

lemma load_objects_capped: "length (stixobjects (load_objects data_dir since limit types)) \<le> limit"
  by (simp add: load_objects_def)

lemma collect_items_capped: "length (collect_items data_dir since types) \<le> 10000"
  using load_objects_capped[of data_dir since 10000 types] by (simp add: collect_items_def)

lemma load_indicators_capped: "length (stixobjects (load_indicators data_dir since 10000)) \<le> 10000"
  using load_objects_capped[of data_dir since 10000] by (simp add: load_indicators_def)

lemma page_subset: "set (fst (page items offset page_size)) \<subseteq> set items"
  by (simp add: page_def Let_def py_slice_subset)

lemma page_length: "length (fst (page items offset page_size)) \<le> length items"
  by (simp add: page_def Let_def py_slice_length)

lemma page_total: "fst (snd (page items offset page_size)) = int (length items)"
  by (simp add: page_def Let_def)

lemma get_indicators_fields:
  "ind_stixobjects (get_indicators cfg data_dir since limit page_size tok)
     = fst (page (stixobjects (load_indicators data_dir since 10000)) (decode_token tok)
         (case page_size of
            None \<Rightarrow> (case limit of
                       None \<Rightarrow> int (length (stixobjects (load_indicators data_dir since 10000)))
                     | Some l \<Rightarrow> if l \<noteq> 0 then l
                                else int (length (stixobjects (load_indicators data_dir since 10000))))
          | Some p \<Rightarrow> p))"
  "ind_total (get_indicators cfg data_dir since limit page_size tok)
     = int (length (stixobjects (load_indicators data_dir since 10000)))"
  "ind_count (get_indicators cfg data_dir since limit page_size tok)
     = length (ind_stixobjects (get_indicators cfg data_dir since limit page_size tok))"
  unfolding get_indicators_def Let_def
  by (simp_all add: page_def Let_def split: prod.splits)

lemma get_collection_objects_fields:
  assumes "get_collection_objects cfg data_dir collection_id since types page_size tok = Inr r"
  shows "col_objects r
           = fst (page (collect_items data_dir since (parse_types_param types)) (decode_token tok) page_size)"
    and "col_total r = int (length (collect_items data_dir since (parse_types_param types)))"
  using assms unfolding get_collection_objects_def Let_def
  by (auto simp add: page_def Let_def split: if_splits prod.splits)

lemma taxii_objects_fields:
  assumes "taxii_objects cfg data_dir collection_id added_after limit tok types = Inr r"
  shows "txi_objects r
           = fst (page (collect_items data_dir added_after
                    (if TAXII_INDICATORS_ONLY cfg then Some [''indicator''] else parse_types_param types))
                  (decode_token tok) limit)"
  using assms unfolding taxii_objects_def Let_def
  by (auto simp add: page_def Let_def split: if_splits prod.splits)

lemma get_collection_objects_found:
  "collection_id = COLLECTION_ID cfg \<Longrightarrow>
     \<exists>r. get_collection_objects cfg data_dir collection_id since types psize tok = Inr r"
  by (simp add: get_collection_objects_def Let_def split: prod.splits)

lemma taxii_objects_found:
  "collection_id = COLLECTION_ID cfg \<Longrightarrow>
     \<exists>r. taxii_objects cfg data_dir collection_id since lim tok types = Inr r"
  by (simp add: taxii_objects_def Let_def split: prod.splits)

text \<open>
  Claim C10. Each of the three list operations loads the merged view with the limit
  10000, and the store cuts the view to at most that many objects. So the total that
  is reported is at most 10000, and every page, for every cursor and every page size, is
  made of objects of one list of at most 10000 objects, whatever the snapshots on disk
  hold.
\<close>

theorem list_operations_capped:
  "ind_total (get_indicators cfg data_dir since limit page_size tok) \<le> 10000
   \<and> ind_count (get_indicators cfg data_dir since limit page_size tok) \<le> 10000
   \<and> set (ind_stixobjects (get_indicators cfg data_dir since limit page_size tok))
       \<subseteq> set (stixobjects (load_indicators data_dir since 10000))
   \<and> length (stixobjects (load_indicators data_dir since 10000)) \<le> 10000
   \<and> (\<forall>r. get_collection_objects cfg data_dir collection_id since types psize tok = Inr r \<longrightarrow>
         col_total r \<le> 10000 \<and> length (col_objects r) \<le> 10000
         \<and> set (col_objects r) \<subseteq> set (collect_items data_dir since (parse_types_param types)))
   \<and> (\<forall>r. taxii_objects cfg data_dir collection_id since lim tok types = Inr r \<longrightarrow>
         length (txi_objects r) \<le> 10000
         \<and> set (txi_objects r) \<subseteq> set (collect_items data_dir since
              (if TAXII_INDICATORS_ONLY cfg then Some [''indicator''] else parse_types_param types)))
   \<and> length (collect_items data_dir since type_list) \<le> 10000"
proof (intro conjI allI impI)
  let ?items = "stixobjects (load_indicators data_dir since 10000)"
  note cap = load_indicators_capped[of data_dir since]
  show "ind_total (get_indicators cfg data_dir since limit page_size tok) \<le> 10000"
    unfolding get_indicators_fields(2) using cap by simp
  show "ind_count (get_indicators cfg data_dir since limit page_size tok) \<le> 10000"
    unfolding get_indicators_fields(3) get_indicators_fields(1)
    using page_length[of ?items] cap by (meson le_trans)
  show "set (ind_stixobjects (get_indicators cfg data_dir since limit page_size tok)) \<subseteq> set ?items"
    unfolding get_indicators_fields(1) by (rule page_subset)
  show "length ?items \<le> 10000" by (rule cap)
  show "length (collect_items data_dir since type_list) \<le> 10000" by (rule collect_items_capped)
next
  fix r assume a: "get_collection_objects cfg data_dir collection_id since types psize tok = Inr r"
  let ?items = "collect_items data_dir since (parse_types_param types)"
  note cap = collect_items_capped[of data_dir since "parse_types_param types"]
  show "col_total r \<le> 10000"
    unfolding get_collection_objects_fields(2)[OF a] using cap by simp
  show "length (col_objects r) \<le> 10000"
    unfolding get_collection_objects_fields(1)[OF a]
    using page_length[of ?items] cap by (meson le_trans)
  show "set (col_objects r) \<subseteq> set ?items"
    unfolding get_collection_objects_fields(1)[OF a] by (rule page_subset)
next
  fix r assume a: "taxii_objects cfg data_dir collection_id since lim tok types = Inr r"
  let ?items = "collect_items data_dir since
              (if TAXII_INDICATORS_ONLY cfg then Some [''indicator''] else parse_types_param types)"
  note cap = collect_items_capped[of data_dir since
      "if TAXII_INDICATORS_ONLY cfg then Some [''indicator''] else parse_types_param types"]
  show "length (txi_objects r) \<le> 10000"
    unfolding taxii_objects_fields[OF a]
    using page_length[of ?items] cap by (meson le_trans)
  show "set (txi_objects r) \<subseteq> set ?items"
    unfolding taxii_objects_fields[OF a] by (rule page_subset)
qed

theorem list_operations_capped_witness:
  "(\<exists>r. get_collection_objects example_config example_store ''indicators'' None None 2 None = Inr r
        \<and> col_total r \<le> 10000 \<and> length (col_objects r) \<le> 10000)
   \<and> (\<exists>r. taxii_objects example_config example_store ''indicators'' None 2 None None = Inr r
        \<and> length (txi_objects r) \<le> 10000)
   \<and> ind_total (get_indicators example_config example_store None None None None) \<le> 10000"
proof -
  have c: "''indicators'' = COLLECTION_ID example_config" by (simp add: example_config_def)
  obtain r where r: "get_collection_objects example_config example_store ''indicators'' None None 2 None = Inr r"
    using get_collection_objects_found[OF c] by blast
  obtain r' where r': "taxii_objects example_config example_store ''indicators'' None 2 None None = Inr r'"
    using taxii_objects_found[OF c] by blast
  note cap = list_operations_capped[of example_config example_store None None None None
      "''indicators''" None 2 2 None]
  have "col_total r \<le> 10000 \<and> length (col_objects r) \<le> 10000" using cap r by blast
  moreover have "length (txi_objects r') \<le> 10000" using cap r' by blast
  moreover have "ind_total (get_indicators example_config example_store None None None None) \<le> 10000"
    using cap by blast
  ultimately show ?thesis using r r' by blast
qed

section \<open>Properties of the retention sweep\<close>

lemma remove_paths_empty: "remove_paths {} disk = disk"
  by (induction disk) (auto simp: remove_paths_def)

lemma remove_paths_twice: "remove_paths A (remove_paths B disk) = remove_paths (A \<union> B) disk"
  by (induction disk) (auto simp: remove_paths_def intro: filter_cong)

lemma os_remove_paths: "os_remove root filename disk = remove_paths {(root, filename)} disk"
  by (induction disk) (auto simp: os_remove_def remove_paths_def)

lemma sweep_files_deleted:
  "deleted_files (sweep_files th root files st) =
     deleted_files st @ map fname (filter (\<lambda>f. swept_name (fname f) \<and> mtime f < th) files)"
  by (induction files arbitrary: st) (auto simp: swept_name_def)

lemma sweep_files_on_disk:
  "on_disk (sweep_files th root files st) =
     remove_paths {(root, fname f) | f. f \<in> set files \<and> swept_name (fname f) \<and> mtime f < th}
       (on_disk st)"
proof (induction files arbitrary: st)
  case Nil
  then show ?case by (simp add: remove_paths_empty)
next
  case (Cons f files)
  let ?D = "{(root, fname g) | g. g \<in> set files \<and> swept_name (fname g) \<and> mtime g < th}"
  show ?case
  proof (cases "swept_name (fname f) \<and> mtime f < th")
    case True
    have "{(root, fname g) | g. g \<in> set (f # files) \<and> swept_name (fname g) \<and> mtime g < th}
          = ?D \<union> {(root, fname f)}"
      using True by auto
    then show ?thesis using True Cons.IH
      by (simp add: swept_name_def os_remove_paths remove_paths_twice)
  next
    case False
    have "{(root, fname g) | g. g \<in> set (f # files) \<and> swept_name (fname g) \<and> mtime g < th} = ?D"
      using False by auto
    then show ?thesis using False Cons.IH
      by (auto simp add: swept_name_def)
  qed
qed

lemma sweep_walk_deleted:
  "deleted_files (sweep_walk th dirs st) =
     deleted_files st
       @ map fname (filter (\<lambda>f. swept_name (fname f) \<and> mtime f < th) (concat (map snd dirs)))"
  by (induction dirs arbitrary: st) (auto simp: sweep_files_deleted)

lemma sweep_walk_on_disk:
  "on_disk (sweep_walk th dirs st) =
     remove_paths
       {(r, fname f) | r files f. (r, files) \<in> set dirs \<and> f \<in> set files
                                  \<and> swept_name (fname f) \<and> mtime f < th}
       (on_disk st)"
proof (induction dirs arbitrary: st)
  case Nil
  then show ?case by (simp add: remove_paths_empty)
next
  case (Cons d dirs)
  obtain root files where d: "d = (root, files)" by (cases d)
  have "{(r, fname f) | r fs f. (r, fs) \<in> set (d # dirs) \<and> f \<in> set fs
                                  \<and> swept_name (fname f) \<and> mtime f < th}
        = {(r, fname f) | r fs f. (r, fs) \<in> set dirs \<and> f \<in> set fs
                                  \<and> swept_name (fname f) \<and> mtime f < th}
          \<union> {(root, fname f) | f. f \<in> set files \<and> swept_name (fname f) \<and> mtime f < th}"
    unfolding d by auto
  then show ?case
    by (simp add: d Cons.IH sweep_files_on_disk remove_paths_twice)
qed

lemma swept_path_iff:
  assumes "listing_ok disk" and in_disk: "(r, files) \<in> set disk" and f: "f \<in> set files"
  shows "((r, fname f) \<in> {(r, fname f) | r files f. (r, files) \<in> set disk \<and> f \<in> set files
                                  \<and> swept_name (fname f) \<and> mtime f < th})
         = (swept_name (fname f) \<and> mtime f < th)"
proof
  assume "(r, fname f) \<in> {(r, fname f) | r files f. (r, files) \<in> set disk \<and> f \<in> set files
                                  \<and> swept_name (fname f) \<and> mtime f < th}"
  then have "\<exists>fs g. (r, fs) \<in> set disk \<and> g \<in> set fs \<and> fname g = fname f
                \<and> swept_name (fname g) \<and> mtime g < th"
    by simp metis
  then obtain fs g where g: "(r, fs) \<in> set disk" "g \<in> set fs" "fname g = fname f"
      "swept_name (fname g) \<and> mtime g < th"
    by blast
  have dr: "distinct (map fst disk)" and df: "distinct (map fname files)"
    using assms(1) in_disk by (auto simp: listing_ok_def list_all_iff)
  have "fs = files" using dr in_disk g(1) by (meson eq_key_imp_eq_value)
  then have "g \<in> set files" using g(2) by simp
  then have "g = f" using df f g(3) by (meson distinct_map inj_onD)
  then show "swept_name (fname f) \<and> mtime f < th" using g(4) by simp
next
  assume "swept_name (fname f) \<and> mtime f < th"
  then show "(r, fname f) \<in> {(r, fname f) | r files f. (r, files) \<in> set disk \<and> f \<in> set files
                                  \<and> swept_name (fname f) \<and> mtime f < th}"
    using in_disk f by blast
qed

lemma remove_swept_paths:
  assumes "listing_ok disk"
  shows "remove_paths
       {(r, fname f) | r files f. (r, files) \<in> set disk \<and> f \<in> set files
                                  \<and> swept_name (fname f) \<and> mtime f < th} disk
     = map (\<lambda>(r, files). (r, filter (\<lambda>f. \<not> (swept_name (fname f) \<and> mtime f < th)) files)) disk"
  unfolding remove_paths_def
proof (rule map_cong[OF refl])
  fix x assume x: "x \<in> set disk"
  obtain r files where rf: "x = (r, files)" by (cases x)
  have "filter (\<lambda>f. (r, fname f) \<notin> {(r, fname f) | r files f. (r, files) \<in> set disk \<and> f \<in> set files
                                  \<and> swept_name (fname f) \<and> mtime f < th}) files
        = filter (\<lambda>f. \<not> (swept_name (fname f) \<and> mtime f < th)) files"
    by (rule filter_cong[OF refl]) (simp only: swept_path_iff[OF assms x[unfolded rf]])
  then show "(case x of (r, files) \<Rightarrow> (r, filter (\<lambda>f. (r, fname f) \<notin> {(r, fname f) | r files f. (r, files) \<in> set disk \<and> f \<in> set files
                                  \<and> swept_name (fname f) \<and> mtime f < th}) files))
        = (case x of (r, files) \<Rightarrow> (r, filter (\<lambda>f. \<not> (swept_name (fname f) \<and> mtime f < th)) files))"
    unfolding rf prod.case by (simp only:)
qed

lemma json_chars:
  "char_of (106::nat) = CHR ''j''" "char_of (115::nat) = CHR ''s''"
  "char_of (111::nat) = CHR ''o''" "char_of (110::nat) = CHR ''n''"
  by code_simp+

text \<open>
  Claim C6 says that the operation deletes exactly the files whose name starts with
  \<^verbatim>\<open>indicators_\<close> and ends in \<^verbatim>\<open>.json\<close> and whose modification time is before
  \<open>now - h\<close> hours, and never a file that does not match that convention. The sweep
  compares the suffix after \<^verbatim>\<open>lower()\<close>: the file \<^verbatim>\<open>indicators_1.JSON\<close>, written
  ten hours before the request, is deleted with \<open>h = 6\<close>, and its name does not end in
  \<^verbatim>\<open>.json\<close>.
\<close>

theorem delete_old_ti_files_counterexample:
  "delete_old_ti_files [(''/app/data'', [\<lparr>fname = ''indicators_1.JSON'', mtime = 0\<rparr>])]
       36000000000 36000000001 6
     = Inr (\<lparr>del_status = ''successful'', del_deleted_files = [''indicators_1.JSON''],
              del_total_deleted = 1, del_threshold_hours = 6, del_timestamp = 36000000001\<rparr>,
            [(''/app/data'', [])])
   \<and> \<not> spec_snapshot_name ''indicators_1.JSON''"
  by (simp add: delete_old_ti_files_def datetime_min_def datetime_max_def startswith_def
      endswith_def lower_def lower_char_def os_remove_def spec_snapshot_name_def json_chars)

text \<open>
  Claim C6, amended. On the listing of a directory tree, and with \<open>now - h\<close> hours inside
  the range of a \<^verbatim>\<open>datetime\<close>, the operation returns, and it deletes exactly the files
  whose name starts with \<^verbatim>\<open>indicators_\<close> and, letters lowered, ends in \<^verbatim>\<open>.json\<close>,
  and whose modification time is strictly before \<open>now - h\<close> hours. The response lists
  their names in the order of the walk, with their count and with \<open>h\<close> echoed; every
  other file is left where it is.
\<close>

theorem delete_old_ti_files_sweep:
  assumes "listing_ok data_dir"
    and "datetime_min \<le> current_time - h * 3600000000"
    and "current_time - h * 3600000000 \<le> datetime_max"
  shows "delete_old_ti_files data_dir current_time response_time h =
     Inr (\<lparr>del_status = ''successful'',
            del_deleted_files =
              map fname (filter (\<lambda>f. swept_name (fname f) \<and> mtime f < current_time - h * 3600000000)
                           (concat (map snd data_dir))),
            del_total_deleted =
              length (filter (\<lambda>f. swept_name (fname f) \<and> mtime f < current_time - h * 3600000000)
                        (concat (map snd data_dir))),
            del_threshold_hours = h,
            del_timestamp = response_time\<rparr>,
          map (\<lambda>(r, files).
                 (r, filter (\<lambda>f. \<not> (swept_name (fname f) \<and> mtime f < current_time - h * 3600000000))
                       files))
            data_dir)"
proof -
  let ?th = "current_time - h * 3600000000"
  let ?st = "sweep_walk ?th data_dir \<lparr>on_disk = data_dir, deleted_files = []\<rparr>"
  have d: "deleted_files ?st =
      map fname (filter (\<lambda>f. swept_name (fname f) \<and> mtime f < ?th) (concat (map snd data_dir)))"
    by (simp add: sweep_walk_deleted)
  have o: "on_disk ?st =
      map (\<lambda>(r, files). (r, filter (\<lambda>f. \<not> (swept_name (fname f) \<and> mtime f < ?th)) files)) data_dir"
    by (simp add: sweep_walk_on_disk remove_swept_paths[OF assms(1)])
  have r: "\<not> (?th < datetime_min \<or> datetime_max < ?th)" using assms(2,3) by simp
  show ?thesis
    unfolding delete_old_ti_files_def Let_def if_not_P[OF r] d o by simp
qed

theorem delete_old_ti_files_sweep_witness:
  "listing_ok example_dir
   \<and> datetime_min \<le> 100 * 3600000000 - 6 * 3600000000
   \<and> 100 * 3600000000 - 6 * 3600000000 \<le> datetime_max
   \<and> delete_old_ti_files example_dir (100 * 3600000000) (100 * 3600000000) 6
       = Inr (\<lparr>del_status = ''successful'', del_deleted_files = [''indicators_a.json''],
                del_total_deleted = 1, del_threshold_hours = 6,
                del_timestamp = 100 * 3600000000\<rparr>,
              [(''/app/data'',
                [\<lparr>fname = ''indicators_b.json'', mtime = 98 * 3600000000\<rparr>,
                 \<lparr>fname = ''notes.txt'', mtime = 0\<rparr>])])"
proof -
  have ok: "listing_ok example_dir" by (simp add: listing_ok_def example_dir_def)
  have lo: "datetime_min \<le> 100 * 3600000000 - 6 * 3600000000" by (simp add: datetime_min_def)
  have hi: "100 * 3600000000 - 6 * 3600000000 \<le> datetime_max" by (simp add: datetime_max_def)
  show ?thesis
    using delete_old_ti_files_sweep[OF ok lo hi, of "100 * 3600000000"] ok lo hi
    by (simp add: example_dir_def swept_name_def startswith_def endswith_def lower_def lower_char_def)
qed

section \<open>Properties of the scheduler\<close>







end
